theory Spec2Isabelle
  imports Main
begin

section \<open>Data model of \<open>thonny/custom_notebook.py\<close>\<close>

text \<open>
  A content pane is a toolkit widget owned by the caller. The notebook compares widgets by
  object identity (\<open>child is page.content\<close>, \<open>page.content == tab_id\<close>; toolkit widgets
  define no \<open>__eq__\<close>) and reads their \<open>winfo_name()\<close>. One value of type \<open>widget\<close> stands
  for one widget object: \<open>wid\<close> tells apart widgets that carry the same name.
\<close>

datatype widget = Widget (wid: nat) (winfo_name: string)

text \<open>
  A \<open>CustomNotebookTab\<close> is an object with mutable state, referred to by its identity.
  \<open>title\<close> is the attribute set by the constructor, \<open>label_text\<close> the text of its label
  (what \<open>set_title\<close> configures), \<open>button\<close> tells whether the close button exists,
  \<open>active\<close> is the styling last applied by \<open>update_state\<close>, and \<open>grid_column\<close> the
  column it occupies in the tab row (\<open>None\<close> when it is not placed).
\<close>

type_synonym tab_ref = nat

record tab_obj =
  title :: string
  label_text :: string
  button :: bool
  active :: bool
  grid_column :: "nat option"

text \<open>
  A \<open>CustomNotebookPage\<close> has two fields that are never reassigned. The class defines no
  \<open>__eq__\<close>, so \<open>new_page == self.current_page\<close> compares object identity: \<open>pid\<close>.
\<close>

record page =
  pid :: nat
  tab :: tab_ref
  content :: widget

text \<open>Calls on content widgets and the virtual event, in the order they are made.\<close>

datatype effect =
    GridPropagate widget bool
  | Grid widget
  | TkRaise widget
  | GridForget widget
  | NotebookTabChanged

datatype error = IndexError | ValueError | RuntimeError | OverflowError

text \<open>\<open>tab_id: Union[str, tk.Widget]\<close> and \<open>pos: Union[int, Literal["end"]]\<close>.\<close>

datatype tab_id = ByName string | ByWidget widget

datatype position = End | At int

record notebook =
  closable :: bool
  pages :: "page list"
  current_page :: "page option"
  tab_heap :: "tab_ref \<Rightarrow> tab_obj option"
  next_ref :: nat
  effects :: "effect list"

text \<open>
  A method returns its value or the exception it raised, together with the notebook as
  it is at that moment: what a raising call has already mutated stays mutated.
\<close>

type_synonym 'a result = "(error + 'a) \<times> notebook"

definition CustomNotebook_init :: "bool \<Rightarrow> notebook" where
  "CustomNotebook_init c =
     \<lparr>closable = c, pages = [], current_page = None, tab_heap = (\<lambda>_. None),
      next_ref = 0, effects = []\<rparr>"

section \<open>Python list primitives\<close>

text \<open>
  \<open>xs[i]\<close>: a negative index counts from the end; outside \<open>[-len, len)\<close> it raises
  \<open>IndexError\<close> (\<open>None\<close> here).
\<close>

definition py_index :: "'a list \<Rightarrow> int \<Rightarrow> nat option" where
  "py_index xs i =
     (let n = int (length xs); j = (if i < 0 then i + n else i)
      in if 0 \<le> j \<and> j < n then Some (nat j) else None)"

text \<open>
  \<open>xs.insert(pos, x)\<close>: the position is converted to the machine index type first, which
  raises \<open>OverflowError\<close> beyond \<open>sys.maxsize\<close> (64-bit CPython); then a negative position
  counts from the end and the result is clamped to \<open>[0, len]\<close>.
\<close>

definition ssize_max :: int where
  "ssize_max = 2 ^ 63 - 1"

definition fits_ssize :: "int \<Rightarrow> bool" where
  "fits_ssize i = (- ssize_max - 1 \<le> i \<and> i \<le> ssize_max)"

definition insert_where :: "nat \<Rightarrow> int \<Rightarrow> nat" where
  "insert_where n pos =
     (let w0 = (if pos < 0 then pos + int n else pos);
          w1 = (if w0 < 0 then 0 else w0);
          w2 = (if w1 > int n then int n else w1)
      in nat w2)"

definition list_insert :: "int \<Rightarrow> 'a \<Rightarrow> 'a list \<Rightarrow> error + 'a list" where
  "list_insert pos x xs =
     (if fits_ssize pos
      then Inr (take (insert_where (length xs) pos) xs @ x # drop (insert_where (length xs) pos) xs)
      else Inl OverflowError)"

text \<open>\<open>del xs[i]\<close> for an index in range.\<close>

definition list_del :: "nat \<Rightarrow> 'a list \<Rightarrow> 'a list" where
  "list_del i xs = take i xs @ drop (Suc i) xs"

text \<open>\<open>for i, x in enumerate(xs): if P(x): ...\<close>: the first index whose element satisfies \<open>P\<close>.\<close>

fun find_first :: "('a \<Rightarrow> bool) \<Rightarrow> 'a list \<Rightarrow> nat option" where
  "find_first P [] = None"
| "find_first P (x # xs) = (if P x then Some 0 else map_option Suc (find_first P xs))"

section \<open>CustomNotebookTab\<close>

definition tab_update :: "tab_ref \<Rightarrow> (tab_obj \<Rightarrow> tab_obj) \<Rightarrow> notebook \<Rightarrow> notebook" where
  "tab_update t f s = s\<lparr>tab_heap := (tab_heap s)(t := map_option f (tab_heap s t))\<rparr>"

definition new_tab :: "string \<Rightarrow> bool \<Rightarrow> tab_obj" where
  "new_tab text c =
     \<lparr>title = text, label_text = text, button = c, active = False, grid_column = None\<rparr>"

definition set_title :: "tab_ref \<Rightarrow> string \<Rightarrow> notebook \<Rightarrow> notebook" where
  "set_title t text s = tab_update t (\<lambda>ob. ob\<lparr>label_text := text\<rparr>) s"

definition update_state :: "tab_ref \<Rightarrow> bool \<Rightarrow> notebook \<Rightarrow> notebook" where
  "update_state t a s = tab_update t (\<lambda>ob. ob\<lparr>active := a\<rparr>) s"

definition tab_grid :: "tab_ref \<Rightarrow> nat \<Rightarrow> notebook \<Rightarrow> notebook" where
  "tab_grid t i s = tab_update t (\<lambda>ob. ob\<lparr>grid_column := Some i\<rparr>) s"

definition tab_grid_forget :: "tab_ref \<Rightarrow> notebook \<Rightarrow> notebook" where
  "tab_grid_forget t s = tab_update t (\<lambda>ob. ob\<lparr>grid_column := None\<rparr>) s"

definition emit :: "effect list \<Rightarrow> notebook \<Rightarrow> notebook" where
  "emit es s = s\<lparr>effects := effects s @ es\<rparr>"

section \<open>CustomNotebook\<close>

fun rearrange_from :: "nat \<Rightarrow> page list \<Rightarrow> notebook \<Rightarrow> notebook" where
  "rearrange_from i [] s = s"
| "rearrange_from i (p # ps) s = rearrange_from (Suc i) ps (tab_grid (tab p) i s)"

definition rearrange_tabs :: "notebook \<Rightarrow> notebook" where
  "rearrange_tabs s = rearrange_from 0 (pages s) s"

text \<open>\<open>new_page == self.current_page\<close>, where \<open>current_page\<close> may be \<open>None\<close>.\<close>

definition is_current :: "notebook \<Rightarrow> page \<Rightarrow> bool" where
  "is_current s p = (map_option pid (current_page s) = Some (pid p))"

definition select_by_index :: "notebook \<Rightarrow> int \<Rightarrow> unit result" where
  "select_by_index s idx =
     (case py_index (pages s) idx of
        None \<Rightarrow> (Inl IndexError, s)
      | Some i \<Rightarrow>
         (let new_page = pages s ! i in
          if is_current s new_page then (Inr (), s)
          else
            let s1 = emit [GridPropagate (content new_page) False,
                           Grid (content new_page),
                           TkRaise (content new_page)] s;
                s2 = update_state (tab new_page) True s1;
                s3 = (case current_page s2 of
                        Some cp \<Rightarrow> update_state (tab cp) False s2
                      | None \<Rightarrow> s2);
                s4 = s3\<lparr>current_page := Some new_page\<rparr>
            in (Inr (), emit [NotebookTabChanged] s4)))"

definition select_tab :: "notebook \<Rightarrow> tab_ref \<Rightarrow> unit result" where
  "select_tab s t =
     (case find_first (\<lambda>p. tab p = t) (pages s) of
        Some i \<Rightarrow> select_by_index s (int i)
      | None \<Rightarrow> (Inl ValueError, s))"

text \<open>
  \<open>page.content == tab_id or page.content.winfo_name() == tab_id\<close>: a widget equals only
  itself and a string only a string.
\<close>

fun matches :: "tab_id \<Rightarrow> page \<Rightarrow> bool" where
  "matches (ByWidget w) p = (content p = w)"
| "matches (ByName n) p = (winfo_name (content p) = n)"

definition index :: "notebook \<Rightarrow> tab_id \<Rightarrow> error + nat" where
  "index s tab_id =
     (if tab_id = ByName ''end'' then Inr (length (pages s))
      else case find_first (matches tab_id) (pages s) of
             Some i \<Rightarrow> Inr i
           | None \<Rightarrow> Inl RuntimeError)"

definition select :: "notebook \<Rightarrow> tab_id option \<Rightarrow> string option result" where
  "select s tab_id =
     (case tab_id of
        None \<Rightarrow>
          (case current_page s of
             Some cp \<Rightarrow> (Inr (Some (winfo_name (content cp))), s)
           | None \<Rightarrow> (Inr None, s))
      | Some tid \<Rightarrow>
          (case index s tid of
             Inl e \<Rightarrow> (Inl e, s)
           | Inr i \<Rightarrow>
               (case select_by_index s (int i) of
                  (Inl e, s') \<Rightarrow> (Inl e, s')
                | (Inr _, s') \<Rightarrow> (Inr None, s'))))"

definition insert_nb :: "notebook \<Rightarrow> position \<Rightarrow> widget \<Rightarrow> string \<Rightarrow> unit result" where
  "insert_nb s pos child text =
     (let t = next_ref s;
          s1 = s\<lparr>tab_heap := (tab_heap s)(t \<mapsto> new_tab text (closable s)),
                 next_ref := Suc (Suc (next_ref s))\<rparr>;
          page = \<lparr>pid = Suc t, tab = t, content = child\<rparr>
      in case (case pos of
                 End \<Rightarrow> Inr (pages s1 @ [page])
               | At n \<Rightarrow> list_insert n page (pages s1)) of
           Inl e \<Rightarrow> (Inl e, s1)
         | Inr ps \<Rightarrow> select_tab (rearrange_tabs (s1\<lparr>pages := ps\<rparr>)) (tab page))"

definition add :: "notebook \<Rightarrow> widget \<Rightarrow> string \<Rightarrow> unit result" where
  "add s child text = insert_nb s End child text"

definition tab_nb :: "notebook \<Rightarrow> tab_id \<Rightarrow> string \<Rightarrow> unit result" where
  "tab_nb s tab_id text =
     (case index s tab_id of
        Inl e \<Rightarrow> (Inl e, s)
      | Inr i \<Rightarrow>
          (case py_index (pages s) (int i) of
             None \<Rightarrow> (Inl IndexError, s)
           | Some j \<Rightarrow> (Inr (), set_title (tab (pages s ! j)) text s)))"

definition tabs :: "notebook \<Rightarrow> string list" where
  "tabs s = map (\<lambda>p. winfo_name (content p)) (pages s)"

definition winfo_children :: "notebook \<Rightarrow> widget list" where
  "winfo_children s = map content (pages s)"

definition forget :: "notebook \<Rightarrow> widget \<Rightarrow> unit result" where
  "forget s child =
     (case find_first (\<lambda>p. content p = child) (pages s) of
        None \<Rightarrow> (Inl ValueError, s)
      | Some i \<Rightarrow>
         (let s1 = emit [GridForget (content (pages s ! i))] s;
              s2 = tab_grid_forget (tab (pages s1 ! i)) s1;
              s3 = s2\<lparr>pages := list_del i (pages s2)\<rparr>;
              s4 = (if length (pages s3) = 0 then s3\<lparr>current_page := None\<rparr>
                    else if length (pages s3) > i then s3\<lparr>current_page := Some (pages s3 ! i)\<rparr>
                    else s3\<lparr>current_page := Some (last (pages s3))\<rparr>)
          in (Inr (), rearrange_tabs s4)))"

definition get_child_by_index :: "notebook \<Rightarrow> int \<Rightarrow> error + widget" where
  "get_child_by_index s idx =
     (case py_index (pages s) idx of
        None \<Rightarrow> Inl IndexError
      | Some i \<Rightarrow> Inr (content (pages s ! i)))"

definition get_current_child :: "notebook \<Rightarrow> widget option" where
  "get_current_child s =
     (case current_page s of Some cp \<Rightarrow> Some (content cp) | None \<Rightarrow> None)"

definition close_tab :: "notebook \<Rightarrow> tab_ref \<Rightarrow> unit result" where
  "close_tab s t =
     (case find (\<lambda>p. tab p = t) (pages s) of
        Some p \<Rightarrow> forget s (content p)
      | None \<Rightarrow> (Inl ValueError, s))"

text \<open>
  \<open>for page in reversed(self.pages)\<close> while the body deletes from the list: the reverse
  iterator holds an index, starting at \<open>len - 1\<close>; each step yields \<open>pages[index]\<close> of the
  list as it is then and decrements, and the loop ends as soon as the index is not below
  the current length. The first argument is that index plus one.
\<close>

fun close_tabs_from :: "nat \<Rightarrow> tab_ref option \<Rightarrow> notebook \<Rightarrow> unit result" where
  "close_tabs_from 0 except_tab s = (Inr (), s)"
| "close_tabs_from (Suc i) except_tab s =
     (if i < length (pages s) then
        (let page = pages s ! i in
         if Some (tab page) = except_tab then close_tabs_from i except_tab s
         else case close_tab s (tab page) of
                (Inl e, s') \<Rightarrow> (Inl e, s')
              | (Inr _, s') \<Rightarrow> close_tabs_from i except_tab s')
      else (Inr (), s))"

definition close_tabs :: "notebook \<Rightarrow> tab_ref option \<Rightarrow> unit result" where
  "close_tabs s except_tab = close_tabs_from (length (pages s)) except_tab s"

section \<open>Sequences of calls\<close>

datatype op =
    Add widget string
  | Insert position widget string
  | Forget widget
  | Select "tab_id option"
  | SelectByIndex int
  | SelectTab tab_ref
  | CloseTab tab_ref
  | CloseTabs "tab_ref option"
  | Tab tab_id string

text \<open>The notebook after one call, whether it returned or raised.\<close>

fun step :: "notebook \<Rightarrow> op \<Rightarrow> notebook" where
  "step s (Add w text) = snd (add s w text)"
| "step s (Insert pos w text) = snd (insert_nb s pos w text)"
| "step s (Forget w) = snd (forget s w)"
| "step s (Select tid) = snd (select s tid)"
| "step s (SelectByIndex i) = snd (select_by_index s i)"
| "step s (SelectTab t) = snd (select_tab s t)"
| "step s (CloseTab t) = snd (close_tab s t)"
| "step s (CloseTabs ex) = snd (close_tabs s ex)"
| "step s (Tab tid text) = snd (tab_nb s tid text)"

definition run :: "bool \<Rightarrow> op list \<Rightarrow> notebook" where
  "run c ops = foldl step (CustomNotebook_init c) ops"

text \<open>The number of selection-changed notifications emitted so far.\<close>

definition notifications :: "notebook \<Rightarrow> nat" where
  "notifications s = count_list (effects s) NotebookTabChanged"

text \<open>
  The current-page invariant: no current page exactly when there are no pages, and
  otherwise the current page is one of the pages.
\<close>

definition current_ok :: "notebook \<Rightarrow> bool" where
  "current_ok s = (case current_page s of None \<Rightarrow> pages s = [] | Some p \<Rightarrow> p \<in> set (pages s))"

text \<open>
  Object identities come from one allocation counter: every page and tab in use was
  allocated, and no two pages share an identity or a tab.
\<close>

definition refs_ok :: "notebook \<Rightarrow> bool" where
  "refs_ok s =
     (list_all (\<lambda>p. pid p < next_ref s \<and> tab p < next_ref s \<and> tab_heap s (tab p) \<noteq> None) (pages s)
      \<and> distinct (map pid (pages s)) \<and> distinct (map tab (pages s)))"

section \<open>Fields that the tab and layout calls leave alone\<close>

lemma tab_update_frame [simp]:
  "pages (tab_update t f s) = pages s"
  "current_page (tab_update t f s) = current_page s"
  "effects (tab_update t f s) = effects s"
  "next_ref (tab_update t f s) = next_ref s"
  "closable (tab_update t f s) = closable s"
  by (simp_all add: tab_update_def)

lemma emit_frame [simp]:
  "pages (emit es s) = pages s"
  "current_page (emit es s) = current_page s"
  "effects (emit es s) = effects s @ es"
  "next_ref (emit es s) = next_ref s"
  "closable (emit es s) = closable s"
  "tab_heap (emit es s) = tab_heap s"
  by (simp_all add: emit_def)

lemmas tab_ops_def = update_state_def set_title_def tab_grid_def tab_grid_forget_def

lemma rearrange_from_frame [simp]:
  "pages (rearrange_from i ps s) = pages s"
  "current_page (rearrange_from i ps s) = current_page s"
  "effects (rearrange_from i ps s) = effects s"
  "next_ref (rearrange_from i ps s) = next_ref s"
  "closable (rearrange_from i ps s) = closable s"
  by (induction ps arbitrary: i s; simp add: tab_grid_def)+

lemma rearrange_tabs_frame [simp]:
  "pages (rearrange_tabs s) = pages s"
  "current_page (rearrange_tabs s) = current_page s"
  "effects (rearrange_tabs s) = effects s"
  "next_ref (rearrange_tabs s) = next_ref s"
  "closable (rearrange_tabs s) = closable s"
  by (simp_all add: rearrange_tabs_def)

section \<open>Facts about the list primitives\<close>

lemma py_index_Some: "py_index xs i = Some j \<Longrightarrow> j < length xs"
  by (auto simp: py_index_def Let_def split: if_splits)

lemma py_index_nat [simp]: "py_index xs (int i) = (if i < length xs then Some i else None)"
  by (simp add: py_index_def Let_def)

lemma find_first_Some: "find_first P xs = Some i \<Longrightarrow> i < length xs \<and> P (xs ! i) \<and> (\<forall>j<i. \<not> P (xs ! j))"
proof (induction xs arbitrary: i)
  case Nil
  then show ?case by simp
next
  case (Cons x xs)
  show ?case
  proof (cases "P x")
    case True
    with Cons.prems show ?thesis by simp
  next
    case False
    with Cons.prems obtain k where k: "find_first P xs = Some k" "i = Suc k" by auto
    from Cons.IH [OF k(1)] False k(2) show ?thesis
      by (auto simp: less_Suc_eq_0_disj)
  qed
qed

lemma find_first_None: "find_first P xs = None \<longleftrightarrow> (\<forall>x\<in>set xs. \<not> P x)"
  by (induction xs) auto

section \<open>Every call keeps the current-page invariant\<close>

lemma select_by_index_cases:
  "snd (select_by_index s i) = s \<or>
   (\<exists>j. py_index (pages s) i = Some j \<and> pages (snd (select_by_index s i)) = pages s \<and>
      current_page (snd (select_by_index s i)) = Some (pages s ! j))"
  by (auto simp: select_by_index_def Let_def tab_ops_def split: option.splits)

lemma current_ok_select_by_index: "current_ok s \<Longrightarrow> current_ok (snd (select_by_index s i))"
proof -
  assume ok: "current_ok s"
  from select_by_index_cases [of s i] show ?thesis
  proof (elim disjE exE conjE)
    assume "snd (select_by_index s i) = s"
    with ok show ?thesis by simp
  next
    fix j
    assume "py_index (pages s) i = Some j"
      and "pages (snd (select_by_index s i)) = pages s"
      and "current_page (snd (select_by_index s i)) = Some (pages s ! j)"
    then show ?thesis
      by (simp add: current_ok_def py_index_Some)
  qed
qed

lemma current_ok_select_tab: "current_ok s \<Longrightarrow> current_ok (snd (select_tab s t))"
  by (simp add: select_tab_def current_ok_select_by_index split: option.splits)

lemma snd_select:
  "snd (select s tid) =
     (case tid of None \<Rightarrow> s
      | Some t \<Rightarrow> (case index s t of Inl e \<Rightarrow> s | Inr i \<Rightarrow> snd (select_by_index s (int i))))"
  by (simp add: select_def split: option.splits sum.splits prod.splits)

lemma current_ok_select: "current_ok s \<Longrightarrow> current_ok (snd (select s tid))"
  by (simp add: snd_select current_ok_select_by_index split: option.splits sum.splits)

lemma set_list_del: "set (list_del i xs) \<subseteq> set xs"
  by (auto simp: list_del_def dest: in_set_takeD in_set_dropD)

lemma current_ok_forget: "current_ok s \<Longrightarrow> current_ok (snd (forget s w))"
  by (auto simp: forget_def Let_def current_ok_def tab_ops_def split: option.splits)

lemma current_ok_close_tab: "current_ok s \<Longrightarrow> current_ok (snd (close_tab s t))"
  by (simp add: close_tab_def current_ok_forget split: option.splits)

lemma current_ok_close_tabs_from: "current_ok s \<Longrightarrow> current_ok (snd (close_tabs_from k ex s))"
proof (induction k arbitrary: s)
  case 0
  then show ?case by simp
next
  case (Suc k)
  obtain r s' where r: "close_tab s (tab (pages s ! k)) = (r, s')"
    by (cases "close_tab s (tab (pages s ! k))")
  with current_ok_close_tab [OF Suc.prems, of "tab (pages s ! k)"] have "current_ok s'"
    by simp
  with Suc r show ?case
    by (auto simp: Let_def split: sum.splits)
qed

lemma set_list_insert: "list_insert n x xs = Inr ys \<Longrightarrow> set ys = insert x (set xs)"
proof -
  assume "list_insert n x xs = Inr ys"
  then obtain k where "ys = take k xs @ x # drop k xs"
    by (auto simp: list_insert_def split: if_splits)
  moreover have "set (take k xs) \<union> set (drop k xs) = set xs"
    by (metis append_take_drop_id set_append)
  ultimately show ?thesis by simp
qed

text \<open>Between the insertion and the selection the notebook may hold pages and no current page.\<close>

lemma select_tab_establishes:
  assumes "t \<in> tab ` set (pages s)"
    and "case current_page s of None \<Rightarrow> True | Some p \<Rightarrow> p \<in> set (pages s)"
  shows "current_ok (snd (select_tab s t))"
proof -
  from assms(1) have "find_first (\<lambda>p. tab p = t) (pages s) \<noteq> None"
    by (auto simp: find_first_None)
  then obtain i where i: "find_first (\<lambda>p. tab p = t) (pages s) = Some i" by auto
  then have lt: "i < length (pages s)" by (simp add: find_first_Some)
  from i have eq: "select_tab s t = select_by_index s (int i)"
    by (simp add: select_tab_def)
  show ?thesis
  proof (cases "is_current s (pages s ! i)")
    case True
    with lt assms(2) show ?thesis
      by (auto simp: eq select_by_index_def current_ok_def is_current_def split: option.splits)
  next
    case False
    with lt show ?thesis
      by (simp add: eq select_by_index_def current_ok_def Let_def tab_ops_def split: option.splits)
  qed
qed

lemma snd_insert_nb:
  "snd (insert_nb s pos w text) =
     (let t = next_ref s;
          s1 = s\<lparr>tab_heap := (tab_heap s)(t \<mapsto> new_tab text (closable s)),
                 next_ref := Suc (Suc (next_ref s))\<rparr>;
          page = \<lparr>pid = Suc t, tab = t, content = w\<rparr>
      in case (case pos of End \<Rightarrow> Inr (pages s @ [page]) | At n \<Rightarrow> list_insert n page (pages s)) of
           Inl e \<Rightarrow> s1
         | Inr ps \<Rightarrow> snd (select_tab (rearrange_tabs (s1\<lparr>pages := ps\<rparr>)) t))"
  by (cases pos; cases "list_insert (case pos of At n \<Rightarrow> n | End \<Rightarrow> 0)
        \<lparr>pid = Suc (next_ref s), tab = next_ref s, content = w\<rparr> (pages s)")
    (simp_all add: insert_nb_def Let_def)

lemma current_ok_insert: "current_ok s \<Longrightarrow> current_ok (snd (insert_nb s pos w text))"
proof -
  assume ok: "current_ok s"
  define page where "page = \<lparr>pid = Suc (next_ref s), tab = next_ref s, content = w\<rparr>"
  define s1 where "s1 = s\<lparr>tab_heap := (tab_heap s)(next_ref s \<mapsto> new_tab text (closable s)),
                 next_ref := Suc (Suc (next_ref s))\<rparr>"
  have s1_ok: "current_ok s1" using ok by (simp add: s1_def current_ok_def split: option.splits)
  have sel: "current_ok (snd (select_tab (rearrange_tabs (s1\<lparr>pages := ps\<rparr>)) (next_ref s)))"
    if "set ps = insert page (set (pages s))" for ps
  proof (rule select_tab_establishes)
    show "next_ref s \<in> tab ` set (pages (rearrange_tabs (s1\<lparr>pages := ps\<rparr>)))"
      using that by (simp add: page_def)
    show "case current_page (rearrange_tabs (s1\<lparr>pages := ps\<rparr>)) of None \<Rightarrow> True
          | Some p \<Rightarrow> p \<in> set (pages (rearrange_tabs (s1\<lparr>pages := ps\<rparr>)))"
      using ok that by (auto simp: s1_def current_ok_def split: option.splits)
  qed
  show ?thesis
  proof (cases pos)
    case End
    have "set (pages s @ [page]) = insert page (set (pages s))" by simp
    from sel [OF this] show ?thesis
      by (simp add: snd_insert_nb End Let_def page_def s1_def)
  next
    case (At n)
    show ?thesis
    proof (cases "list_insert n page (pages s)")
      case (Inl e)
      with s1_ok show ?thesis
        by (simp add: snd_insert_nb At Let_def page_def s1_def)
    next
      case (Inr ps)
      from sel [OF set_list_insert [OF Inr]] Inr show ?thesis
        by (simp add: snd_insert_nb At Let_def page_def s1_def)
    qed
  qed
qed

lemma tab_nb_frame:
  "pages (snd (tab_nb s tid text)) = pages s"
  "current_page (snd (tab_nb s tid text)) = current_page s"
  "next_ref (snd (tab_nb s tid text)) = next_ref s"
  by (simp_all add: tab_nb_def set_title_def split: sum.splits)

lemma current_ok_tab_nb: "current_ok s \<Longrightarrow> current_ok (snd (tab_nb s tid text))"
  by (simp add: current_ok_def tab_nb_frame split: option.splits)

lemma current_ok_step: "current_ok s \<Longrightarrow> current_ok (step s x)"
  by (cases x)
    (simp_all add: add_def close_tabs_def current_ok_insert current_ok_forget current_ok_select
      current_ok_select_by_index current_ok_select_tab current_ok_close_tab
      current_ok_close_tabs_from current_ok_tab_nb)

lemma current_ok_foldl: "current_ok s \<Longrightarrow> current_ok (foldl step s ops)"
  by (induction ops arbitrary: s) (simp_all add: current_ok_step)

section \<open>Identities of pages and tabs\<close>

lemma tab_update_dom [simp]: "dom (tab_heap (tab_update t f s)) = dom (tab_heap s)"
  by (auto simp: tab_update_def split: if_splits)

lemma rearrange_from_dom [simp]: "dom (tab_heap (rearrange_from i ps s)) = dom (tab_heap s)"
  by (induction ps arbitrary: i s) (simp_all add: tab_grid_def)

lemma rearrange_tabs_dom [simp]: "dom (tab_heap (rearrange_tabs s)) = dom (tab_heap s)"
  by (simp add: rearrange_tabs_def)

lemma tab_nb_dom: "dom (tab_heap (snd (tab_nb s tid text))) = dom (tab_heap s)"
  by (simp add: tab_nb_def set_title_def split: sum.splits)

lemma refs_ok_alt:
  "refs_ok s \<longleftrightarrow>
     (\<forall>p\<in>set (pages s). pid p < next_ref s \<and> tab p < next_ref s \<and> tab p \<in> dom (tab_heap s))
      \<and> distinct (map pid (pages s)) \<and> distinct (map tab (pages s))"
  by (auto simp: refs_ok_def list_all_iff)

lemma select_by_index_frame:
  "pages (snd (select_by_index s i)) = pages s"
  "next_ref (snd (select_by_index s i)) = next_ref s"
  "dom (tab_heap (snd (select_by_index s i))) = dom (tab_heap s)"
  "closable (snd (select_by_index s i)) = closable s"
  by (simp_all add: select_by_index_def Let_def tab_ops_def split: option.splits)

lemma select_tab_frame:
  "pages (snd (select_tab s t)) = pages s"
  "next_ref (snd (select_tab s t)) = next_ref s"
  "dom (tab_heap (snd (select_tab s t))) = dom (tab_heap s)"
  by (simp_all add: select_tab_def select_by_index_frame split: option.splits)

lemma select_frame:
  "pages (snd (select s tid)) = pages s"
  "next_ref (snd (select s tid)) = next_ref s"
  "dom (tab_heap (snd (select s tid))) = dom (tab_heap s)"
  by (simp_all add: snd_select select_by_index_frame split: option.splits sum.splits)

lemma distinct_map_list_del: "distinct (map f xs) \<Longrightarrow> distinct (map f (list_del i xs))"
proof -
  assume d: "distinct (map f xs)"
  have "map f xs = map f (take i xs) @ map f (drop i xs)"
    by (metis append_take_drop_id map_append)
  with d have "distinct (map f (take i xs) @ map f (drop i xs))" by simp
  moreover have "set (drop (Suc i) xs) \<subseteq> set (drop i xs)"
    by (simp add: set_drop_subset_set_drop)
  moreover have "distinct (map f (drop (Suc i) xs))"
    using d by (simp flip: drop_map)
  ultimately show ?thesis
    by (auto simp: list_del_def)
qed

lemma forget_frame:
  "pages (snd (forget s w)) =
     (case find_first (\<lambda>p. content p = w) (pages s) of None \<Rightarrow> pages s
      | Some i \<Rightarrow> list_del i (pages s))"
  "next_ref (snd (forget s w)) = next_ref s"
  "dom (tab_heap (snd (forget s w))) = dom (tab_heap s)"
  by (simp_all add: forget_def Let_def tab_ops_def split: option.splits)

lemma refs_ok_forget: "refs_ok s \<Longrightarrow> refs_ok (snd (forget s w))"
  using set_list_del [of _ "pages s"]
  by (auto simp: refs_ok_alt forget_frame distinct_map_list_del split: option.splits)

lemma refs_ok_close_tab: "refs_ok s \<Longrightarrow> refs_ok (snd (close_tab s t))"
  by (simp add: close_tab_def refs_ok_forget split: option.splits)

lemma refs_ok_close_tabs_from: "refs_ok s \<Longrightarrow> refs_ok (snd (close_tabs_from k ex s))"
proof (induction k arbitrary: s)
  case 0
  then show ?case by simp
next
  case (Suc k)
  obtain r s' where r: "close_tab s (tab (pages s ! k)) = (r, s')"
    by (cases "close_tab s (tab (pages s ! k))")
  with refs_ok_close_tab [OF Suc.prems, of "tab (pages s ! k)"] have "refs_ok s'"
    by simp
  with Suc r show ?case
    by (auto simp: Let_def split: sum.splits)
qed

lemma insert_where_le: "insert_where n pos \<le> n"
  by (auto simp: insert_where_def Let_def)

lemma list_insert_shape:
  "list_insert n x xs = Inr ys \<Longrightarrow> \<exists>k\<le>length xs. ys = take k xs @ x # drop k xs"
  using insert_where_le [of "length xs" n]
  by (auto simp: list_insert_def split: if_splits)

lemma distinct_map_insert_at:
  "distinct (map f xs) \<Longrightarrow> f x \<notin> f ` set xs \<Longrightarrow> distinct (map f (take k xs @ x # drop k xs))"
proof -
  assume d: "distinct (map f xs)" and x: "f x \<notin> f ` set xs"
  have "map f xs = map f (take k xs) @ map f (drop k xs)"
    by (metis append_take_drop_id map_append)
  with d have "distinct (map f (take k xs) @ map f (drop k xs))" by simp
  with x show ?thesis
    by (auto dest: in_set_takeD in_set_dropD)
qed

lemma refs_ok_insert: "refs_ok s \<Longrightarrow> refs_ok (snd (insert_nb s pos w text))"
proof -
  assume ok: "refs_ok s"
  define page where "page = \<lparr>pid = Suc (next_ref s), tab = next_ref s, content = w\<rparr>"
  define s1 where "s1 = s\<lparr>tab_heap := (tab_heap s)(next_ref s \<mapsto> new_tab text (closable s)),
                 next_ref := Suc (Suc (next_ref s))\<rparr>"
  have s1_ok: "refs_ok s1" using ok by (auto simp: s1_def refs_ok_alt)
  have sel: "refs_ok (snd (select_tab (rearrange_tabs (s1\<lparr>pages := ps\<rparr>)) (next_ref s)))"
    if "ps = take k (pages s) @ page # drop k (pages s)" for ps k
  proof -
    have "pid page \<notin> pid ` set (pages s)" "tab page \<notin> tab ` set (pages s)"
      using ok by (auto simp: refs_ok_alt page_def)
    moreover have "distinct (map pid (pages s))" "distinct (map tab (pages s))"
      using ok by (simp_all add: refs_ok_alt)
    ultimately have "distinct (map pid ps)" "distinct (map tab ps)"
      unfolding that by (blast intro: distinct_map_insert_at)+
    moreover have "set ps = insert page (set (pages s))"
    proof -
      have "set (take k (pages s)) \<union> set (drop k (pages s)) = set (pages s)"
        by (metis append_take_drop_id set_append)
      with that show ?thesis by simp
    qed
    ultimately have "refs_ok (s1\<lparr>pages := ps\<rparr>)"
      using ok by (auto simp: refs_ok_alt s1_def page_def)
    then show ?thesis
      by (simp add: refs_ok_alt select_tab_frame)
  qed
  show ?thesis
  proof (cases pos)
    case End
    have "pages s @ [page] = take (length (pages s)) (pages s) @ page # drop (length (pages s)) (pages s)"
      by simp
    from sel [OF this] show ?thesis
      by (simp add: snd_insert_nb End Let_def page_def s1_def)
  next
    case (At n)
    show ?thesis
    proof (cases "list_insert n page (pages s)")
      case (Inl e)
      with s1_ok show ?thesis
        by (simp add: snd_insert_nb At Let_def page_def s1_def)
    next
      case (Inr ps)
      from list_insert_shape [OF Inr] obtain k where "ps = take k (pages s) @ page # drop k (pages s)"
        by blast
      from sel [OF this] Inr show ?thesis
        by (simp add: snd_insert_nb At Let_def page_def s1_def)
    qed
  qed
qed

lemma refs_ok_step: "refs_ok s \<Longrightarrow> refs_ok (step s x)"
proof (cases x)
  case (Select tid)
  assume "refs_ok s"
  then show ?thesis by (simp add: Select refs_ok_alt select_frame)
next
  case (SelectByIndex i)
  assume "refs_ok s"
  then show ?thesis by (simp add: SelectByIndex refs_ok_alt select_by_index_frame)
next
  case (SelectTab t)
  assume "refs_ok s"
  then show ?thesis by (simp add: SelectTab refs_ok_alt select_tab_frame)
next
  case (Tab tid ttl)
  assume "refs_ok s"
  then show ?thesis by (simp add: Tab refs_ok_alt tab_nb_frame tab_nb_dom)
qed (simp_all add: add_def close_tabs_def refs_ok_insert refs_ok_forget refs_ok_close_tab
      refs_ok_close_tabs_from)

lemma refs_ok_run: "refs_ok (run c ops)"
proof -
  have "refs_ok s \<Longrightarrow> refs_ok (foldl step s ops)" for s
    by (induction ops arbitrary: s) (simp_all add: refs_ok_step)
  moreover have "refs_ok (CustomNotebook_init c)"
    by (simp add: refs_ok_def CustomNotebook_init_def)
  ultimately show ?thesis by (simp add: run_def)
qed

section \<open>Index lookups\<close>

lemma py_index_None:
  "(py_index xs i = None) = (i < - int (length xs) \<or> int (length xs) \<le> i)"
  by (auto simp: py_index_def Let_def)

lemma select_by_index_IndexError:
  "(fst (select_by_index s i) = Inl IndexError) = (py_index (pages s) i = None)"
  by (simp add: select_by_index_def Let_def split: option.splits)

lemma select_by_index_raises:
  "py_index (pages s) i = None \<Longrightarrow> select_by_index s i = (Inl IndexError, s)"
  by (simp add: select_by_index_def)

lemma get_child_by_index_IndexError:
  "(get_child_by_index s i = Inl IndexError) = (py_index (pages s) i = None)"
  by (simp add: get_child_by_index_def split: option.splits)

lemma select_by_index_noop:
  "py_index (pages s) i = Some j \<Longrightarrow> is_current s (pages s ! j) \<Longrightarrow>
   select_by_index s i = (Inr (), s)"
  by (simp add: select_by_index_def)

lemma select_by_index_switch:
  assumes "py_index (pages s) i = Some j" and "\<not> is_current s (pages s ! j)"
  shows "fst (select_by_index s i) = Inr ()"
    and "current_page (snd (select_by_index s i)) = Some (pages s ! j)"
    and "effects (snd (select_by_index s i)) =
           effects s @ [GridPropagate (content (pages s ! j)) False, Grid (content (pages s ! j)),
                        TkRaise (content (pages s ! j)), NotebookTabChanged]"
  using assms
  by (simp_all add: select_by_index_def Let_def tab_ops_def split: option.splits)

lemma is_current_iff:
  assumes "refs_ok s" and "current_ok s" and "j < length (pages s)"
  shows "is_current s (pages s ! j) = (current_page s = Some (pages s ! j))"
proof (cases "current_page s")
  case None
  then show ?thesis by (simp add: is_current_def)
next
  case (Some p)
  with assms(2) have p: "p \<in> set (pages s)" by (simp add: current_ok_def)
  from assms(1) have "inj_on pid (set (pages s))"
    by (simp add: refs_ok_def distinct_map)
  with p assms(3) have "(pid p = pid (pages s ! j)) = (p = pages s ! j)"
    by (auto dest: inj_onD)
  with Some show ?thesis by (simp add: is_current_def)
qed

lemma current_ok_run: "current_ok (run c ops)"
  unfolding run_def
  by (rule current_ok_foldl) (simp add: current_ok_def CustomNotebook_init_def)

lemma select_Some:
  "index s tid = Inr k \<Longrightarrow>
   select s (Some tid) =
     (case fst (select_by_index s (int k)) of Inl e \<Rightarrow> Inl e | Inr _ \<Rightarrow> Inr None,
      snd (select_by_index s (int k)))"
  by (simp add: select_def split: prod.splits sum.splits)

lemma forget_not_found:
  "\<forall>p\<in>set (pages s). content p \<noteq> w \<Longrightarrow> forget s w = (Inl ValueError, s)"
  by (simp add: forget_def find_first_None [THEN iffD2])

lemma find_None: "\<forall>x\<in>set xs. \<not> P x \<Longrightarrow> find P xs = None"
  by (simp add: find_None_iff)

lemma close_tab_not_found:
  "\<forall>p\<in>set (pages s). tab p \<noteq> t \<Longrightarrow> close_tab s t = (Inl ValueError, s)"
  by (simp add: close_tab_def find_None)

lemma index_not_found:
  "tid \<noteq> ByName ''end'' \<Longrightarrow> \<forall>p\<in>set (pages s). \<not> matches tid p \<Longrightarrow>
   index s tid = Inl RuntimeError"
  by (simp add: index_def find_first_None [THEN iffD2])

section \<open>What \<open>insert\<close> and \<open>forget\<close> compute\<close>

lemma find_first_fresh:
  assumes "P x" and "\<forall>y\<in>set xs. \<not> P y" and "k \<le> length xs"
  shows "find_first P (take k xs @ x # drop k xs) = Some k"
  using assms
proof (induction xs arbitrary: k)
  case Nil
  then show ?case by simp
next
  case (Cons y ys)
  show ?case
  proof (cases k)
    case 0
    with Cons.prems show ?thesis by simp
  next
    case (Suc n)
    with Cons.prems Cons.IH [of n] show ?thesis by simp
  qed
qed

text \<open>The page and the notebook that \<open>insert\<close> builds before it touches the list.\<close>

lemma insert_nb_found:
  assumes refs: "refs_ok s" and cur: "current_ok s" and k: "k \<le> length (pages s)"
    and pos: "(case pos of End \<Rightarrow> Inr (pages s @ [np]) | At n \<Rightarrow> list_insert n np (pages s))
              = Inr (take k (pages s) @ np # drop k (pages s))"
    and np: "np = \<lparr>pid = Suc (next_ref s), tab = next_ref s, content = w\<rparr>"
  shows "fst (insert_nb s pos w text) = Inr ()"
    and "pages (snd (insert_nb s pos w text)) = take k (pages s) @ np # drop k (pages s)"
    and "current_page (snd (insert_nb s pos w text)) = Some np"
    and "effects (snd (insert_nb s pos w text)) =
           effects s @ [GridPropagate w False, Grid w, TkRaise w, NotebookTabChanged]"
proof -
  define s1 where "s1 = s\<lparr>tab_heap := (tab_heap s)(next_ref s \<mapsto> new_tab text (closable s)),
                 next_ref := Suc (Suc (next_ref s))\<rparr>"
  define ps where "ps = take k (pages s) @ np # drop k (pages s)"
  define s2 where "s2 = rearrange_tabs (s1\<lparr>pages := ps\<rparr>)"
  have ins: "insert_nb s pos w text = select_tab s2 (next_ref s)"
    using pos by (cases pos) (simp_all add: insert_nb_def Let_def s1_def s2_def ps_def np)
  have fresh: "\<forall>p\<in>set (pages s). \<not> tab p = next_ref s"
    using refs by (auto simp: refs_ok_alt)
  have "find_first (\<lambda>p. tab p = next_ref s) ps = Some k"
    unfolding ps_def using fresh k by (intro find_first_fresh) (simp_all add: np)
  then have sel: "select_tab s2 (next_ref s) = select_by_index s2 (int k)"
    by (simp add: select_tab_def s2_def)
  have klt: "k < length ps" using k by (simp add: ps_def)
  then have idx: "py_index (pages s2) (int k) = Some k" by (simp add: s2_def)
  have nth: "pages s2 ! k = np"
    using k by (simp add: s2_def ps_def nth_append)
  have "\<not> is_current s2 np"
  proof (cases "current_page s")
    case None
    then show ?thesis by (simp add: is_current_def s2_def s1_def)
  next
    case (Some p)
    with cur have "p \<in> set (pages s)" by (simp add: current_ok_def)
    with refs have "pid p < next_ref s" by (auto simp: refs_ok_alt)
    with Some show ?thesis by (simp add: is_current_def s2_def s1_def np)
  qed
  with nth have nc: "\<not> is_current s2 (pages s2 ! k)" by simp
  note sw = select_by_index_switch [OF idx nc]
  show "fst (insert_nb s pos w text) = Inr ()"
    using sw(1) by (simp add: ins sel)
  show "pages (snd (insert_nb s pos w text)) = take k (pages s) @ np # drop k (pages s)"
    by (simp add: ins select_tab_frame s2_def ps_def)
  show "current_page (snd (insert_nb s pos w text)) = Some np"
    using sw(2) nth by (simp add: ins sel)
  show "effects (snd (insert_nb s pos w text)) =
           effects s @ [GridPropagate w False, Grid w, TkRaise w, NotebookTabChanged]"
    using sw(3) nth by (simp add: ins sel) (simp add: s2_def s1_def np)
qed

lemma insert_nb_overflow:
  "\<not> fits_ssize n \<Longrightarrow>
   fst (insert_nb s (At n) w text) = Inl OverflowError
   \<and> pages (snd (insert_nb s (At n) w text)) = pages s
   \<and> current_page (snd (insert_nb s (At n) w text)) = current_page s
   \<and> effects (snd (insert_nb s (At n) w text)) = effects s"
  by (simp add: insert_nb_def Let_def list_insert_def)

lemma insert_where_cases:
  "insert_where n p =
     (if p < - int n then 0 else if p < 0 then nat (int n + p) else if p \<le> int n then nat p else n)"
  by (auto simp: insert_where_def Let_def add.commute)

text \<open>
  A successful \<open>forget\<close> assigns the current page from the index of the removed page
  alone, calls \<open>grid_forget\<close> on the removed content and nothing else on any content
  widget, emits no notification and restyles no tab.
\<close>

lemma forget_found:
  assumes "find_first (\<lambda>p. content p = w) (pages s) = Some i"
  shows "fst (forget s w) = Inr ()"
    and "pages (snd (forget s w)) = list_del i (pages s)"
    and "effects (snd (forget s w)) = effects s @ [GridForget w]"
    and "current_page (snd (forget s w)) =
           (if list_del i (pages s) = [] then None
            else if i < length (list_del i (pages s)) then Some (list_del i (pages s) ! i)
            else Some (last (list_del i (pages s))))"
  using assms find_first_Some [OF assms]
  by (simp_all add: forget_def Let_def tab_ops_def)

lemma tab_update_active:
  "(\<And>ob. active (f ob) = active ob) \<Longrightarrow>
   map_option active (tab_heap (tab_update t' f s) t) = map_option active (tab_heap s t)"
  by (cases "tab_heap s t") (auto simp: tab_update_def)

lemma rearrange_from_active:
  "map_option active (tab_heap (rearrange_from i ps s) t) = map_option active (tab_heap s t)"
  by (induction ps arbitrary: i s) (simp_all add: tab_grid_def tab_update_active)

lemma forget_active:
  "map_option active (tab_heap (snd (forget s w)) t) = map_option active (tab_heap s t)"
  by (simp add: forget_def Let_def rearrange_tabs_def rearrange_from_active tab_grid_forget_def
      tab_update_active split: option.splits)

lemma list_insert_fits:
  "fits_ssize n \<Longrightarrow>
   list_insert n x xs =
     Inr (take (insert_where (length xs) n) xs @ x # drop (insert_where (length xs) n) xs)"
  by (simp add: list_insert_def)

section \<open>Closing tabs in reverse order\<close>

lemma find_first_distinct:
  "distinct (map f (xs @ x # ys)) \<Longrightarrow> find_first (\<lambda>p. f p = f x) (xs @ x # ys) = Some (length xs)"
  by (induction xs) auto

lemma find_distinct:
  "distinct (map f (xs @ x # ys)) \<Longrightarrow> find (\<lambda>p. f p = f x) (xs @ x # ys) = Some x"
  by (induction xs) auto

lemma list_del_middle: "list_del (length xs) (xs @ x # ys) = xs @ ys"
  by (simp add: list_del_def)

lemma close_tab_distinct:
  assumes "pages s = xs @ x # ys"
    and "distinct (map tab (pages s))" and "distinct (map content (pages s))"
  shows "fst (close_tab s (tab x)) = Inr ()"
    and "pages (snd (close_tab s (tab x))) = xs @ ys"
    and "effects (snd (close_tab s (tab x))) = effects s @ [GridForget (content x)]"
proof -
  have "close_tab s (tab x) = forget s (content x)"
    using assms(1,2) by (simp add: close_tab_def find_distinct)
  moreover have "find_first (\<lambda>p. content p = content x) (pages s) = Some (length xs)"
    using assms(1,3) by (simp add: find_first_distinct)
  ultimately show "fst (close_tab s (tab x)) = Inr ()"
    and "pages (snd (close_tab s (tab x))) = xs @ ys"
    and "effects (snd (close_tab s (tab x))) = effects s @ [GridForget (content x)]"
    by (simp_all add: forget_found assms(1) list_del_middle)
qed

lemma close_tabs_from_distinct:
  assumes "pages s = xs @ ys"
    and "distinct (map tab (pages s))" and "distinct (map content (pages s))"
  shows "fst (close_tabs_from (length xs) ex s) = Inr ()
    \<and> pages (snd (close_tabs_from (length xs) ex s)) = filter (\<lambda>p. Some (tab p) = ex) xs @ ys
    \<and> effects (snd (close_tabs_from (length xs) ex s))
        = effects s @ map (\<lambda>p. GridForget (content p)) (filter (\<lambda>p. Some (tab p) \<noteq> ex) (rev xs))"
  using assms
proof (induction xs arbitrary: s ys rule: rev_induct)
  case Nil
  then show ?case by simp
next
  case (snoc x xs)
  from snoc.prems(1) have pg: "pages s = xs @ x # ys" by simp
  then have nth: "pages s ! length xs = x" and len: "length xs < length (pages s)"
    by simp_all
  show ?case
  proof (cases "Some (tab x) = ex")
    case True
    with snoc.IH [OF pg snoc.prems(2,3)] nth len show ?thesis
      by simp
  next
    case False
    note ct = close_tab_distinct [OF pg snoc.prems(2,3)]
    define s' where "s' = snd (close_tab s (tab x))"
    have res: "close_tab s (tab x) = (Inr (), s')"
      using ct(1) by (simp add: s'_def prod_eq_iff)
    have pg': "pages s' = xs @ ys" using ct(2) by (simp add: s'_def)
    have "distinct (map tab (pages s'))" "distinct (map content (pages s'))"
      using snoc.prems(2,3) by (simp_all add: pg pg')
    moreover have "effects s' = effects s @ [GridForget (content x)]"
      using ct(3) by (simp add: s'_def)
    ultimately show ?thesis
      using snoc.IH [OF pg'] False nth len res by simp
  qed
qed

section \<open>Renaming a tab\<close>

lemma run_snoc: "run c (ops @ [x]) = step (run c ops) x"
  by (simp add: run_def)

lemma matches_ByWidget: "matches (ByWidget x) = (\<lambda>p. content p = x)"
  by (rule ext) simp

lemma tab_nb_ByWidget:
  assumes "find_first (\<lambda>p. content p = x) (pages s) = Some i"
  shows "tab_nb s (ByWidget x) text = (Inr (), set_title (tab (pages s ! i)) text s)"
  using assms find_first_Some [OF assms]
  by (simp add: tab_nb_def index_def matches_ByWidget)

lemma set_title_heap:
  "tab_heap (set_title t text s) t' =
     (if t' = t then map_option (\<lambda>ob. ob\<lparr>label_text := text\<rparr>) (tab_heap s t) else tab_heap s t')"
  by (simp add: set_title_def tab_update_def)

lemma set_title_pages [simp]: "pages (set_title t text s) = pages s"
  by (simp add: set_title_def)

section \<open>Resolving an identifier\<close>

lemma find_first_append:
  "P x \<Longrightarrow> \<forall>y\<in>set xs. \<not> P y \<Longrightarrow> find_first P (xs @ x # ys) = Some (length xs)"
  by (induction xs) simp_all

lemma index_first_match:
  assumes "tid \<noteq> ByName ''end''" and "pages s = xs @ p # ys"
    and "matches tid p" and "\<forall>q\<in>set xs. \<not> matches tid q"
  shows "index s tid = Inr (length xs)"
  using assms by (simp add: index_def find_first_append)

section \<open>The claims\<close>

text \<open>
  Claim C1. Whatever sequence of \<open>add\<close>, \<open>insert\<close>, \<open>forget\<close>, \<open>select\<close>,
  \<open>select_by_index\<close>, \<open>select_tab\<close>, \<open>close_tab\<close>, \<open>close_tabs\<close> (and \<open>tab\<close>) calls is
  applied to a new notebook, each returning or raising, afterwards the current page is
  \<open>None\<close> exactly when there are no pages, and otherwise it is one of the pages.
\<close>

theorem C1_current_page_invariant:
  "current_ok (run c ops) \<and> ((current_page (run c ops) = None) = (pages (run c ops) = []))"
proof -
  have "current_ok (CustomNotebook_init c)"
    by (simp add: current_ok_def CustomNotebook_init_def)
  then have ok: "current_ok (run c ops)"
    unfolding run_def by (rule current_ok_foldl)
  then show ?thesis
    by (auto simp: current_ok_def split: option.splits)
qed

text \<open>
  Claim C2, at the failing input. \<open>forget\<close> assigns \<open>current_page\<close> after every removal,
  whether or not the removed page was the current one. With pages \<open>a, b, c\<close> and \<open>c\<close>
  current, \<open>forget(a)\<close> makes \<open>b\<close> (the page now at index 0) the current page, while
  the tab of \<open>c\<close> (tab 4) keeps its active styling and the tab of \<open>b\<close> (tab 2) its
  inactive one.
\<close>

theorem C2_forget_other_page_moves_current:
  "get_current_child
     (run True [Add (Widget 0 ''a'') ''a'', Add (Widget 1 ''b'') ''b'', Add (Widget 2 ''c'') ''c''])
     = Some (Widget 2 ''c'')
   \<and> fst (forget
        (run True [Add (Widget 0 ''a'') ''a'', Add (Widget 1 ''b'') ''b'', Add (Widget 2 ''c'') ''c''])
        (Widget 0 ''a'')) = Inr ()
   \<and> get_current_child
       (snd (forget
         (run True [Add (Widget 0 ''a'') ''a'', Add (Widget 1 ''b'') ''b'', Add (Widget 2 ''c'') ''c''])
         (Widget 0 ''a'')))
     = Some (Widget 1 ''b'')
   \<and> map_option active
       (tab_heap (snd (forget
         (run True [Add (Widget 0 ''a'') ''a'', Add (Widget 1 ''b'') ''b'', Add (Widget 2 ''c'') ''c''])
         (Widget 0 ''a''))) 4)
     = Some True
   \<and> map_option active
       (tab_heap (snd (forget
         (run True [Add (Widget 0 ''a'') ''a'', Add (Widget 1 ''b'') ''b'', Add (Widget 2 ''c'') ''c''])
         (Widget 0 ''a''))) 2)
     = Some False"
  by code_simp

text \<open>
  Claim C3, as the code has it. \<open>tabs()\<close> lists \<open>page.content.winfo_name()\<close>, the names
  of the content widgets, not the titles of the tabs: after \<open>add(x, "t")\<close> and
  \<open>tab(x, "t2")\<close> on a new notebook, with \<open>x\<close> named \<open>w\<close>, it returns \<open>["w"]\<close>.
\<close>

theorem C3_tabs_lists_widget_names:
  "fst (add (run True []) (Widget 0 ''w'') ''t'') = Inr ()
   \<and> fst (tab_nb (snd (add (run True []) (Widget 0 ''w'') ''t'')) (ByWidget (Widget 0 ''w'')) ''t2'')
       = Inr ()
   \<and> tabs (snd (tab_nb (snd (add (run True []) (Widget 0 ''w'') ''t''))
                  (ByWidget (Widget 0 ''w'')) ''t2'')) = [''w'']
   \<and> ''t2'' \<notin> set (tabs (snd (tab_nb (snd (add (run True []) (Widget 0 ''w'') ''t''))
                  (ByWidget (Widget 0 ''w'')) ''t2'')))"
  by code_simp

text \<open>
  Claim C3, amended. At every notebook reached from a new one, \<open>add(x, t)\<close> followed by
  \<open>tab(x, t2)\<close> both return; the label of the tab of the first page that holds \<open>x\<close> (the
  page just added, when no earlier page holds \<open>x\<close>) then reads \<open>t2\<close>, every other tab is as
  it was, and \<open>tabs()\<close> returns the names of the content widgets, which \<open>tab\<close> does not
  change.
\<close>

theorem C3_tab_sets_label:
  "fst (add (run c ops) x t) = Inr ()
   \<and> fst (tab_nb (snd (add (run c ops) x t)) (ByWidget x) t2) = Inr ()
   \<and> find_first (\<lambda>p. content p = x) (pages (snd (add (run c ops) x t))) \<noteq> None
   \<and> (find_first (\<lambda>p. content p = x) (pages (snd (add (run c ops) x t))) = Some i \<longrightarrow>
        map_option label_text
          (tab_heap (snd (tab_nb (snd (add (run c ops) x t)) (ByWidget x) t2))
             (tab (pages (snd (add (run c ops) x t)) ! i))) = Some t2
        \<and> (\<forall>t'. t' \<noteq> tab (pages (snd (add (run c ops) x t)) ! i) \<longrightarrow>
              tab_heap (snd (tab_nb (snd (add (run c ops) x t)) (ByWidget x) t2)) t'
              = tab_heap (snd (add (run c ops) x t)) t')
        \<and> (x \<notin> content ` set (pages (run c ops)) \<longrightarrow>
              pages (snd (add (run c ops) x t)) ! i = last (pages (snd (add (run c ops) x t)))))
   \<and> tabs (snd (tab_nb (snd (add (run c ops) x t)) (ByWidget x) t2))
       = tabs (run c ops) @ [winfo_name x]"
proof -
  define s where "s = run c ops"
  define s1 where "s1 = snd (add s x t)"
  define s2 where "s2 = snd (tab_nb s1 (ByWidget x) t2)"
  define np where "np = \<lparr>pid = Suc (next_ref s), tab = next_ref s, content = x\<rparr>"
  have refs: "refs_ok s" and cur: "current_ok s"
    by (simp_all add: s_def refs_ok_run current_ok_run)
  have "s1 = run c (ops @ [Add x t])"
    by (simp add: s1_def s_def run_snoc)
  then have refs1: "refs_ok s1" by (simp add: refs_ok_run)
  have pos: "(case End of End \<Rightarrow> Inr (pages s @ [np]) | At n \<Rightarrow> list_insert n np (pages s))
          = Inr (take (length (pages s)) (pages s) @ np # drop (length (pages s)) (pages s))"
    by simp
  note found = insert_nb_found [OF refs cur le_refl pos np_def]
  have ret1: "fst (add s x t) = Inr ()"
    using found(1) by (simp add: add_def)
  have pg1: "pages s1 = pages s @ [np]"
    using found(2) by (simp add: s1_def add_def)
  have "np \<in> set (pages s1)" "content np = x"
    by (simp_all add: pg1 np_def)
  then have ex: "find_first (\<lambda>p. content p = x) (pages s1) \<noteq> None"
    by (auto simp: find_first_None)
  then obtain j where j: "find_first (\<lambda>p. content p = x) (pages s1) = Some j" by auto
  have ret2: "fst (tab_nb s1 (ByWidget x) t2) = Inr ()"
    by (simp add: tab_nb_ByWidget [OF j])
  have "pages s2 = pages s1"
    by (simp add: s2_def tab_nb_ByWidget [OF j])
  then have tbs: "tabs s2 = tabs s @ [winfo_name x]"
    by (simp add: tabs_def pg1 np_def)
  have at_i: "map_option label_text (tab_heap s2 (tab (pages s1 ! i))) = Some t2
        \<and> (\<forall>t'. t' \<noteq> tab (pages s1 ! i) \<longrightarrow> tab_heap s2 t' = tab_heap s1 t')
        \<and> (x \<notin> content ` set (pages s) \<longrightarrow> pages s1 ! i = last (pages s1))"
    if i: "find_first (\<lambda>p. content p = x) (pages s1) = Some i"
  proof -
    have s2: "s2 = set_title (tab (pages s1 ! i)) t2 s1"
      by (simp add: s2_def tab_nb_ByWidget [OF i])
    from find_first_Some [OF i] have "pages s1 ! i \<in> set (pages s1)" by simp
    with refs1 have "tab_heap s1 (tab (pages s1 ! i)) \<noteq> None"
      by (auto simp: refs_ok_alt)
    then have label: "map_option label_text (tab_heap s2 (tab (pages s1 ! i))) = Some t2"
      by (auto simp: s2 set_title_heap)
    have others: "\<forall>t'. t' \<noteq> tab (pages s1 ! i) \<longrightarrow> tab_heap s2 t' = tab_heap s1 t'"
      by (simp add: s2 set_title_heap)
    have "pages s1 ! i = last (pages s1)" if "x \<notin> content ` set (pages s)"
    proof -
      from that have "\<forall>y\<in>set (pages s). \<not> content y = x" by auto
      with find_first_fresh [of "\<lambda>p. content p = x" np "pages s" "length (pages s)"]
      have "find_first (\<lambda>p. content p = x) (pages s1) = Some (length (pages s))"
        by (simp add: pg1 np_def)
      with i have "i = length (pages s)" by simp
      then show ?thesis by (simp add: pg1)
    qed
    with label others show ?thesis by blast
  qed
  from ret1 ret2 ex at_i tbs show ?thesis
    unfolding s2_def s1_def s_def by blast
qed

theorem C3_tab_sets_label_witness:
  "map_option label_text
     (tab_heap (snd (tab_nb (snd (add (run True [Add (Widget 0 ''a'') ''a'']) (Widget 1 ''b'') ''t''))
                      (ByWidget (Widget 1 ''b'')) ''t2'')) 2) = Some ''t2''
   \<and> tab_heap (snd (tab_nb (snd (add (run True [Add (Widget 0 ''a'') ''a'']) (Widget 1 ''b'') ''t''))
                      (ByWidget (Widget 1 ''b'')) ''t2'')) 0
     = tab_heap (snd (add (run True [Add (Widget 0 ''a'') ''a'']) (Widget 1 ''b'') ''t'')) 0
   \<and> tabs (snd (tab_nb (snd (add (run True [Add (Widget 0 ''a'') ''a'']) (Widget 1 ''b'') ''t''))
                      (ByWidget (Widget 1 ''b'')) ''t2'')) = [''a'', ''b'']"
proof -
  let ?s1 = "snd (add (run True [Add (Widget 0 ''a'') ''a'']) (Widget 1 ''b'') ''t'')"
  have "find_first (\<lambda>p. content p = Widget 1 ''b'') (pages ?s1) = Some 1"
    and "tab (pages ?s1 ! 1) = 2"
    and "tabs (run True [Add (Widget 0 ''a'') ''a'']) = [''a'']"
    by code_simp+
  with C3_tab_sets_label [of True "[Add (Widget 0 ''a'') ''a'']" "Widget 1 ''b''" "''t''" "''t2''" 1]
  show ?thesis by simp
qed

text \<open>
  Claim C4, at the failing input. With pages \<open>a, b\<close> and \<open>b\<close> current, \<open>forget(b)\<close> makes
  \<open>a\<close> the current page by assignment: the tab of \<open>a\<close> keeps its inactive styling and
  the number of notifications stays what it was.
\<close>

theorem C4_forget_current_without_selection:
  "get_current_child (run True [Add (Widget 0 ''a'') ''a'', Add (Widget 1 ''b'') ''b''])
     = Some (Widget 1 ''b'')
   \<and> get_current_child
       (snd (forget (run True [Add (Widget 0 ''a'') ''a'', Add (Widget 1 ''b'') ''b''])
              (Widget 1 ''b'')))
     = Some (Widget 0 ''a'')
   \<and> map_option
        (\<lambda>p. map_option active
          (tab_heap (snd (forget (run True [Add (Widget 0 ''a'') ''a'', Add (Widget 1 ''b'') ''b''])
                           (Widget 1 ''b''))) (tab p)))
        (current_page (snd (forget (run True [Add (Widget 0 ''a'') ''a'', Add (Widget 1 ''b'') ''b''])
                           (Widget 1 ''b''))))
     = Some (Some False)
   \<and> notifications
        (snd (forget (run True [Add (Widget 0 ''a'') ''a'', Add (Widget 1 ''b'') ''b''])
              (Widget 1 ''b'')))
     = notifications (run True [Add (Widget 0 ''a'') ''a'', Add (Widget 1 ''b'') ''b''])"
  by code_simp

text \<open>
  Claim C5, as the code has it. \<open>select_by_index\<close> and \<open>get_child_by_index\<close> read
  \<open>self.pages[index]\<close>, and a Python list accepts the negative indices \<open>-len .. -1\<close>,
  counting from the end. At a notebook with one page, index \<open>-1\<close> lies outside
  \<open>[0, len)\<close> and both calls succeed.
\<close>

theorem C5_negative_index_accepted:
  "\<not> ((fst (select_by_index (run True [Add (Widget 0 ''a'') ''a'']) (- 1)) = Inl IndexError)
       = (- 1 < (0::int) \<or> int (length (pages (run True [Add (Widget 0 ''a'') ''a'']))) \<le> - 1))
   \<and> fst (select_by_index (run True [Add (Widget 0 ''a'') ''a'']) (- 1)) = Inr ()
   \<and> get_child_by_index (run True [Add (Widget 0 ''a'') ''a'']) (- 1) = Inr (Widget 0 ''a'')"
  by code_simp

text \<open>
  Claim C5, amended. For every notebook and every integer \<open>i\<close>, \<open>select_by_index\<close> and
  \<open>get_child_by_index\<close> raise \<open>IndexError\<close> exactly when \<open>i\<close> is outside \<open>[-len, len)\<close>;
  the raising \<open>select_by_index\<close> leaves the whole notebook as it was, and
  \<open>get_child_by_index\<close> never writes to it.
\<close>

theorem C5_index_error_range:
  "(fst (select_by_index s i) = Inl IndexError)
     = (i < - int (length (pages s)) \<or> int (length (pages s)) \<le> i)
   \<and> (get_child_by_index s i = Inl IndexError)
     = (i < - int (length (pages s)) \<or> int (length (pages s)) \<le> i)
   \<and> (fst (select_by_index s i) = Inl IndexError \<longrightarrow> snd (select_by_index s i) = s)"
  by (simp add: select_by_index_IndexError get_child_by_index_IndexError py_index_None
      select_by_index_raises flip: py_index_None)

theorem C5_index_error_range_witness:
  "fst (select_by_index (run True [Add (Widget 0 ''a'') ''a'']) 1) = Inl IndexError
   \<and> snd (select_by_index (run True [Add (Widget 0 ''a'') ''a'']) 1)
       = run True [Add (Widget 0 ''a'') ''a'']
   \<and> get_child_by_index (run True [Add (Widget 0 ''a'') ''a'']) (- 2) = Inl IndexError"
proof -
  have "fst (select_by_index (run True [Add (Widget 0 ''a'') ''a'']) 1) = Inl IndexError"
    and "get_child_by_index (run True [Add (Widget 0 ''a'') ''a'']) (- 2) = Inl IndexError"
    by code_simp+
  with C5_index_error_range [of "run True [Add (Widget 0 ''a'') ''a'']" 1]
  show ?thesis by simp
qed

text \<open>
  Claim C6, as the code has it. \<open>index\<close> returns the first page that matches an
  identifier. With two pages whose content widgets are both named \<open>a\<close> and the second
  page current, \<open>select()\<close> gives \<open>a\<close> as the identifier of the current page, yet
  \<open>select("a")\<close> switches to the first page and emits a notification.
\<close>

theorem C6_select_shared_name_switches:
  "get_current_child (run True [Add (Widget 0 ''a'') ''t1'', Add (Widget 1 ''a'') ''t2''])
     = Some (Widget 1 ''a'')
   \<and> fst (select (run True [Add (Widget 0 ''a'') ''t1'', Add (Widget 1 ''a'') ''t2'']) None)
     = Inr (Some ''a'')
   \<and> fst (select (run True [Add (Widget 0 ''a'') ''t1'', Add (Widget 1 ''a'') ''t2''])
            (Some (ByName ''a''))) = Inr None
   \<and> get_current_child
        (snd (select (run True [Add (Widget 0 ''a'') ''t1'', Add (Widget 1 ''a'') ''t2''])
               (Some (ByName ''a''))))
     = Some (Widget 0 ''a'')
   \<and> notifications
        (snd (select (run True [Add (Widget 0 ''a'') ''t1'', Add (Widget 1 ''a'') ''t2''])
               (Some (ByName ''a''))))
     = Suc (notifications (run True [Add (Widget 0 ''a'') ''t1'', Add (Widget 1 ''a'') ''t2'']))"
  by code_simp

text \<open>
  Claim C6, amended. At every notebook reached from a new one, \<open>select_by_index\<close> with
  an index of the current page returns with the notebook unchanged: no widget call, no
  tab restyled, no notification; with a valid index of any other page it switches to that
  page and emits exactly one more notification. \<open>select\<close> with an identifier other than
  \<open>"end"\<close> acts on the first page, in display order, that the identifier matches: when
  that page is the current page the notebook is unchanged, and when it is another page
  the notebook switches to it and emits exactly one more notification.
\<close>

theorem C6_select_first_match:
  "(py_index (pages (run c ops)) i = Some j \<and> current_page (run c ops) = Some (pages (run c ops) ! j)
      \<longrightarrow> select_by_index (run c ops) i = (Inr (), run c ops))
   \<and> (py_index (pages (run c ops)) i = Some j \<and> current_page (run c ops) \<noteq> Some (pages (run c ops) ! j)
      \<longrightarrow> fst (select_by_index (run c ops) i) = Inr ()
        \<and> current_page (snd (select_by_index (run c ops) i)) = Some (pages (run c ops) ! j)
        \<and> notifications (snd (select_by_index (run c ops) i)) = notifications (run c ops) + 1)
   \<and> (tid \<noteq> ByName ''end'' \<and> pages (run c ops) = xs @ p # ys \<and> matches tid p
        \<and> (\<forall>q\<in>set xs. \<not> matches tid q) \<and> current_page (run c ops) = Some p
      \<longrightarrow> select (run c ops) (Some tid) = (Inr None, run c ops))
   \<and> (tid \<noteq> ByName ''end'' \<and> pages (run c ops) = xs @ p # ys \<and> matches tid p
        \<and> (\<forall>q\<in>set xs. \<not> matches tid q) \<and> current_page (run c ops) \<noteq> Some p
      \<longrightarrow> fst (select (run c ops) (Some tid)) = Inr None
        \<and> current_page (snd (select (run c ops) (Some tid))) = Some p
        \<and> notifications (snd (select (run c ops) (Some tid))) = notifications (run c ops) + 1)"
proof -
  define s where "s = run c ops"
  have cur: "is_current s (pages s ! n) = (current_page s = Some (pages s ! n))"
    if "n < length (pages s)" for n
    using that by (simp add: s_def is_current_iff refs_ok_run current_ok_run)
  have noop: "select_by_index s i' = (Inr (), s)"
    if "py_index (pages s) i' = Some n" "current_page s = Some (pages s ! n)" for i' n
    using that cur [of n] by (simp add: select_by_index_noop py_index_Some)
  have switch: "fst (select_by_index s i') = Inr ()
      \<and> current_page (snd (select_by_index s i')) = Some (pages s ! n)
      \<and> notifications (snd (select_by_index s i')) = notifications s + 1"
    if "py_index (pages s) i' = Some n" "current_page s \<noteq> Some (pages s ! n)" for i' n
  proof -
    from that cur [of n] have "\<not> is_current s (pages s ! n)"
      by (simp add: py_index_Some)
    from select_by_index_switch [OF that(1) this] show ?thesis
      by (simp add: notifications_def)
  qed
  have resolve: "select s (Some tid) =
        (case fst (select_by_index s (int (length xs))) of Inl e \<Rightarrow> Inl e | Inr _ \<Rightarrow> Inr None,
         snd (select_by_index s (int (length xs))))
      \<and> py_index (pages s) (int (length xs)) = Some (length xs)
      \<and> pages s ! length xs = p"
    if "tid \<noteq> ByName ''end''" "pages s = xs @ p # ys" "matches tid p"
      "\<forall>q\<in>set xs. \<not> matches tid q"
    using select_Some [OF index_first_match [OF that]] that(2) by simp
  have 1: "py_index (pages s) i = Some j \<and> current_page s = Some (pages s ! j)
      \<longrightarrow> select_by_index s i = (Inr (), s)"
    using noop by blast
  have 2: "py_index (pages s) i = Some j \<and> current_page s \<noteq> Some (pages s ! j)
      \<longrightarrow> fst (select_by_index s i) = Inr ()
        \<and> current_page (snd (select_by_index s i)) = Some (pages s ! j)
        \<and> notifications (snd (select_by_index s i)) = notifications s + 1"
    using switch by blast
  have 3: "select s (Some tid) = (Inr None, s)"
    if "tid \<noteq> ByName ''end''" "pages s = xs @ p # ys" "matches tid p"
      "\<forall>q\<in>set xs. \<not> matches tid q" "current_page s = Some p"
  proof -
    note r = resolve [OF that(1-4)]
    from r that(5) have "select_by_index s (int (length xs)) = (Inr (), s)"
      by (intro noop [of _ "length xs"]) simp_all
    with r show ?thesis by simp
  qed
  have 4: "fst (select s (Some tid)) = Inr None
        \<and> current_page (snd (select s (Some tid))) = Some p
        \<and> notifications (snd (select s (Some tid))) = notifications s + 1"
    if "tid \<noteq> ByName ''end''" "pages s = xs @ p # ys" "matches tid p"
      "\<forall>q\<in>set xs. \<not> matches tid q" "current_page s \<noteq> Some p"
  proof -
    note r = resolve [OF that(1-4)]
    from r that(5) have "fst (select_by_index s (int (length xs))) = Inr ()
      \<and> current_page (snd (select_by_index s (int (length xs)))) = Some (pages s ! length xs)
      \<and> notifications (snd (select_by_index s (int (length xs)))) = notifications s + 1"
      by (intro switch [of _ "length xs"]) simp_all
    with r show ?thesis by simp
  qed
  from 1 2 3 4 show ?thesis
    unfolding s_def by blast
qed

theorem C6_select_first_match_witness:
  "select_by_index (run True [Add (Widget 0 ''a'') ''a'', Add (Widget 1 ''b'') ''b'']) 1
     = (Inr (), run True [Add (Widget 0 ''a'') ''a'', Add (Widget 1 ''b'') ''b''])
   \<and> select (run True [Add (Widget 0 ''a'') ''a'', Add (Widget 1 ''b'') ''b''])
         (Some (ByWidget (Widget 1 ''b'')))
     = (Inr None, run True [Add (Widget 0 ''a'') ''a'', Add (Widget 1 ''b'') ''b''])
   \<and> notifications
        (snd (select_by_index (run True [Add (Widget 0 ''a'') ''a'', Add (Widget 1 ''b'') ''b'']) 0))
     = notifications (run True [Add (Widget 0 ''a'') ''a'', Add (Widget 1 ''b'') ''b'']) + 1
   \<and> notifications
        (snd (select (run True [Add (Widget 0 ''a'') ''a'', Add (Widget 1 ''b'') ''b''])
               (Some (ByName ''a''))))
     = notifications (run True [Add (Widget 0 ''a'') ''a'', Add (Widget 1 ''b'') ''b'']) + 1"
proof -
  let ?s = "run True [Add (Widget 0 ''a'') ''a'', Add (Widget 1 ''b'') ''b'']"
  let ?A = "\<lparr>pid = 1, tab = 0, content = Widget 0 ''a''\<rparr>"
  let ?B = "\<lparr>pid = 3, tab = 2, content = Widget 1 ''b''\<rparr>"
  have "py_index (pages ?s) 1 = Some 1" and "current_page ?s = Some (pages ?s ! 1)"
    and "py_index (pages ?s) 0 = Some 0" and "current_page ?s \<noteq> Some (pages ?s ! 0)"
    and "pages ?s = [?A] @ ?B # []" and "pages ?s = [] @ ?A # [?B]"
    and "current_page ?s = Some ?B" and "current_page ?s \<noteq> Some ?A"
    by code_simp+
  moreover have "ByWidget (Widget 1 ''b'') \<noteq> ByName ''end''" and "ByName ''a'' \<noteq> ByName ''end''"
    and "matches (ByWidget (Widget 1 ''b'')) ?B" and "matches (ByName ''a'') ?A"
    and "\<forall>q\<in>set [?A]. \<not> matches (ByWidget (Widget 1 ''b'')) q"
    and "\<forall>q\<in>set []. \<not> matches (ByName ''a'') q"
    by simp_all
  ultimately show ?thesis
    using C6_select_first_match
         [of True "[Add (Widget 0 ''a'') ''a'', Add (Widget 1 ''b'') ''b'']" 1 1
             "ByWidget (Widget 1 ''b'')" "[?A]" ?B "[]"]
       C6_select_first_match
         [of True "[Add (Widget 0 ''a'') ''a'', Add (Widget 1 ''b'') ''b'']" 0 0
             "ByName ''a''" "[]" ?A "[?B]"]
    by blast
qed

text \<open>
  Claim C7. At a notebook whose pages are \<open>A, B, C, D\<close>, four pages with different
  content handles and different tabs, \<open>close_tabs(except_tab = B's tab)\<close> returns, forgets
  the contents of \<open>D\<close>, \<open>C\<close> and \<open>A\<close> in this order and nothing else, and leaves the
  sequence \<open>[B]\<close>; \<open>close_tabs()\<close> forgets \<open>D\<close>, \<open>C\<close>, \<open>B\<close>, \<open>A\<close> in this order and
  leaves the sequence empty.
\<close>

theorem C7_close_tabs_reverse_order:
  assumes "pages s = [A, B, C, D]"
    and "distinct (map content [A, B, C, D])" and "distinct (map tab [A, B, C, D])"
  shows "fst (close_tabs s (Some (tab B))) = Inr ()
    \<and> pages (snd (close_tabs s (Some (tab B)))) = [B]
    \<and> effects (snd (close_tabs s (Some (tab B))))
        = effects s @ [GridForget (content D), GridForget (content C), GridForget (content A)]
    \<and> fst (close_tabs s None) = Inr ()
    \<and> pages (snd (close_tabs s None)) = []
    \<and> effects (snd (close_tabs s None))
        = effects s @ [GridForget (content D), GridForget (content C), GridForget (content B),
                       GridForget (content A)]"
proof -
  have pg: "pages s = [A, B, C, D] @ []" using assms(1) by simp
  have d: "distinct (map tab (pages s))" "distinct (map content (pages s))"
    using assms by simp_all
  have len: "length (pages s) = length [A, B, C, D]" using assms(1) by simp
  from close_tabs_from_distinct [OF pg d, of "Some (tab B)"]
       close_tabs_from_distinct [OF pg d, of None] assms(3)
  show ?thesis
    unfolding close_tabs_def len by auto
qed

theorem C7_close_tabs_reverse_order_witness:
  "pages (snd (close_tabs
      (run True [Add (Widget 0 ''a'') ''a'', Add (Widget 1 ''b'') ''b'', Add (Widget 2 ''c'') ''c'',
                 Add (Widget 3 ''d'') ''d'']) (Some 2)))
     = [\<lparr>pid = 3, tab = 2, content = Widget 1 ''b''\<rparr>]
   \<and> pages (snd (close_tabs
      (run True [Add (Widget 0 ''a'') ''a'', Add (Widget 1 ''b'') ''b'', Add (Widget 2 ''c'') ''c'',
                 Add (Widget 3 ''d'') ''d'']) None)) = []"
proof -
  let ?s = "run True [Add (Widget 0 ''a'') ''a'', Add (Widget 1 ''b'') ''b'',
                      Add (Widget 2 ''c'') ''c'', Add (Widget 3 ''d'') ''d'']"
  let ?A = "\<lparr>pid = 1, tab = 0, content = Widget 0 ''a''\<rparr>"
  let ?B = "\<lparr>pid = 3, tab = 2, content = Widget 1 ''b''\<rparr>"
  let ?C = "\<lparr>pid = 5, tab = 4, content = Widget 2 ''c''\<rparr>"
  let ?D = "\<lparr>pid = 7, tab = 6, content = Widget 3 ''d''\<rparr>"
  have "pages ?s = [?A, ?B, ?C, ?D]" by code_simp
  moreover have "distinct (map content [?A, ?B, ?C, ?D])" by simp
  moreover have "distinct (map tab [?A, ?B, ?C, ?D])" by simp
  ultimately show ?thesis
    using C7_close_tabs_reverse_order [of ?s ?A ?B ?C ?D] by simp
qed

text \<open>
  Claim C8. At every notebook reached from a new one, \<open>add\<close> returns and \<open>insert\<close>
  returns unless its position does not fit the machine index type; whenever they return,
  the page just created (which was not a page before) is a page of the notebook, it is
  the current page, and \<open>get_current_child\<close> gives the content handle that was passed in.
\<close>

theorem C8_inserted_page_is_current:
  "fst (add (run c ops) w text) = Inr ()
   \<and> get_current_child (snd (add (run c ops) w text)) = Some w
   \<and> current_page (snd (add (run c ops) w text))
       = Some \<lparr>pid = Suc (next_ref (run c ops)), tab = next_ref (run c ops), content = w\<rparr>
   \<and> (fst (insert_nb (run c ops) pos w text) = Inr ())
       = (case pos of End \<Rightarrow> True | At n \<Rightarrow> fits_ssize n)
   \<and> (fst (insert_nb (run c ops) pos w text) = Inr () \<longrightarrow>
        get_current_child (snd (insert_nb (run c ops) pos w text)) = Some w
        \<and> current_page (snd (insert_nb (run c ops) pos w text))
            = Some \<lparr>pid = Suc (next_ref (run c ops)), tab = next_ref (run c ops), content = w\<rparr>
        \<and> \<lparr>pid = Suc (next_ref (run c ops)), tab = next_ref (run c ops), content = w\<rparr>
            \<in> set (pages (snd (insert_nb (run c ops) pos w text)))
        \<and> \<lparr>pid = Suc (next_ref (run c ops)), tab = next_ref (run c ops), content = w\<rparr>
            \<notin> set (pages (run c ops)))"
proof -
  define s where "s = run c ops"
  define np where "np = \<lparr>pid = Suc (next_ref s), tab = next_ref s, content = w\<rparr>"
  have refs: "refs_ok s" and cur: "current_ok s"
    by (simp_all add: s_def refs_ok_run current_ok_run)
  have found: "fst (insert_nb s pos' w text) = Inr ()
      \<and> get_current_child (snd (insert_nb s pos' w text)) = Some w
      \<and> current_page (snd (insert_nb s pos' w text)) = Some np
      \<and> np \<in> set (pages (snd (insert_nb s pos' w text)))"
    if "(case pos' of End \<Rightarrow> Inr (pages s @ [np]) | At n \<Rightarrow> list_insert n np (pages s))
          = Inr (take k (pages s) @ np # drop k (pages s))" and "k \<le> length (pages s)"
    for pos' k
    using insert_nb_found [OF refs cur that(2) that(1) np_def]
    by (simp add: get_current_child_def np_def)
  have at_end: "fst (insert_nb s End w text) = Inr ()
      \<and> get_current_child (snd (insert_nb s End w text)) = Some w
      \<and> current_page (snd (insert_nb s End w text)) = Some np
      \<and> np \<in> set (pages (snd (insert_nb s End w text)))"
    by (rule found [of End "length (pages s)"]) simp_all
  have at_n: "fst (insert_nb s (At n) w text) = Inr ()
      \<and> get_current_child (snd (insert_nb s (At n) w text)) = Some w
      \<and> current_page (snd (insert_nb s (At n) w text)) = Some np
      \<and> np \<in> set (pages (snd (insert_nb s (At n) w text)))"
    if "fits_ssize n" for n
    by (rule found [of "At n" "insert_where (length (pages s)) n"])
      (simp_all add: list_insert_fits that insert_where_le)
  have over: "fst (insert_nb s (At n) w text) \<noteq> Inr ()" if "\<not> fits_ssize n" for n
    using insert_nb_overflow [OF that, of s w] by simp
  have ins: "(fst (insert_nb s pos w text) = Inr ())
       = (case pos of End \<Rightarrow> True | At n \<Rightarrow> fits_ssize n)"
    using at_end at_n over by (cases pos) auto
  have new: "np \<notin> set (pages s)"
    using refs by (auto simp: refs_ok_alt np_def)
  have "fst (insert_nb s pos w text) = Inr () \<longrightarrow>
        get_current_child (snd (insert_nb s pos w text)) = Some w
        \<and> current_page (snd (insert_nb s pos w text)) = Some np
        \<and> np \<in> set (pages (snd (insert_nb s pos w text)))"
    using at_end at_n over by (cases pos) auto
  with ins at_end new show ?thesis
    unfolding s_def np_def add_def by blast
qed

theorem C8_inserted_page_is_current_witness:
  "fst (insert_nb (run True [Add (Widget 0 ''a'') ''a'', Add (Widget 1 ''b'') ''b''])
          (At 0) (Widget 2 ''c'') ''c'') = Inr ()
   \<and> get_current_child
        (snd (insert_nb (run True [Add (Widget 0 ''a'') ''a'', Add (Widget 1 ''b'') ''b''])
               (At 0) (Widget 2 ''c'') ''c'')) = Some (Widget 2 ''c'')"
proof -
  have "fits_ssize 0" by code_simp
  with C8_inserted_page_is_current
         [of True "[Add (Widget 0 ''a'') ''a'', Add (Widget 1 ''b'') ''b'']" "Widget 2 ''c''"
             "''c''" "At 0"]
  show ?thesis by simp
qed

text \<open>
  Claim C9. A lookup that matches no page raises, and the notebook is as it was:
  \<open>index\<close> (which never writes to the notebook) raises \<open>RuntimeError\<close> for an identifier
  other than the append sentinel \<open>"end"\<close>, \<open>forget\<close> raises \<open>ValueError\<close> for a content
  handle held by no page, and \<open>close_tab\<close> raises \<open>ValueError\<close> for a tab of no page.
  These two exception classes are what the specification calls \<open>NotFound\<close>.
\<close>

theorem C9_lookup_failure:
  "(tid \<noteq> ByName ''end'' \<and> (\<forall>p\<in>set (pages s). \<not> matches tid p)
      \<longrightarrow> index s tid = Inl RuntimeError)
   \<and> ((\<forall>p\<in>set (pages s). content p \<noteq> w) \<longrightarrow> forget s w = (Inl ValueError, s))
   \<and> ((\<forall>p\<in>set (pages s). tab p \<noteq> t) \<longrightarrow> close_tab s t = (Inl ValueError, s))"
  by (simp add: index_not_found forget_not_found close_tab_not_found)

theorem C9_lookup_failure_witness:
  "index (run True [Add (Widget 0 ''a'') ''a'']) (ByName ''zz'') = Inl RuntimeError
   \<and> forget (run True [Add (Widget 0 ''a'') ''a'']) (Widget 1 ''b'')
       = (Inl ValueError, run True [Add (Widget 0 ''a'') ''a''])
   \<and> close_tab (run True [Add (Widget 0 ''a'') ''a'']) 7
       = (Inl ValueError, run True [Add (Widget 0 ''a'') ''a''])"
proof -
  have "ByName ''zz'' \<noteq> ByName ''end''"
    and "\<forall>p\<in>set (pages (run True [Add (Widget 0 ''a'') ''a''])). \<not> matches (ByName ''zz'') p"
    and "\<forall>p\<in>set (pages (run True [Add (Widget 0 ''a'') ''a''])). content p \<noteq> Widget 1 ''b''"
    and "\<forall>p\<in>set (pages (run True [Add (Widget 0 ''a'') ''a''])). tab p \<noteq> 7"
    by code_simp+
  with C9_lookup_failure [of "ByName ''zz''" "run True [Add (Widget 0 ''a'') ''a'']"
      "Widget 1 ''b''" 7]
  show ?thesis by blast
qed

text \<open>
  Claim C10, as the code has it. \<open>insert\<close> hands the position to \<open>list.insert\<close>. At a
  notebook with pages \<open>a, b\<close>, position \<open>-1\<close> (below the start) puts the new page before
  the last one, not at the front; and position \<open>2^63\<close> raises \<open>OverflowError\<close>.
\<close>

theorem C10_insert_negative_and_huge:
  "map content
     (pages (snd (insert_nb (run True [Add (Widget 0 ''a'') ''a'', Add (Widget 1 ''b'') ''b''])
                    (At (- 1)) (Widget 2 ''c'') ''c'')))
     = [Widget 0 ''a'', Widget 2 ''c'', Widget 1 ''b'']
   \<and> fst (insert_nb (run True [Add (Widget 0 ''a'') ''a'', Add (Widget 1 ''b'') ''b''])
            (At (2 ^ 63)) (Widget 2 ''c'') ''c'') = Inl OverflowError"
  by code_simp

text \<open>
  Claim C10, amended. At every notebook reached from a new one and for every integer
  position \<open>p\<close> that fits the machine index type, \<open>insert\<close> returns; the new page goes in
  front of the old index \<open>k\<close>, where \<open>k\<close> is \<open>len\<close> for \<open>p > len\<close> (appended), \<open>0\<close> for
  \<open>p < -len\<close> (front), \<open>len + p\<close> for \<open>-len \<le> p < 0\<close> (counted from the end) and \<open>p\<close>
  otherwise; the new page is a page of the notebook and is the current page.
\<close>

theorem C10_insert_position:
  "fits_ssize p \<longrightarrow>
     fst (insert_nb (run c ops) (At p) w text) = Inr ()
     \<and> pages (snd (insert_nb (run c ops) (At p) w text))
         = take (insert_where (length (pages (run c ops))) p) (pages (run c ops))
           @ \<lparr>pid = Suc (next_ref (run c ops)), tab = next_ref (run c ops), content = w\<rparr>
           # drop (insert_where (length (pages (run c ops))) p) (pages (run c ops))
     \<and> insert_where (length (pages (run c ops))) p
         = (if p < - int (length (pages (run c ops))) then 0
            else if p < 0 then nat (int (length (pages (run c ops))) + p)
            else if p \<le> int (length (pages (run c ops))) then nat p
            else length (pages (run c ops)))
     \<and> \<lparr>pid = Suc (next_ref (run c ops)), tab = next_ref (run c ops), content = w\<rparr>
         \<in> set (pages (snd (insert_nb (run c ops) (At p) w text)))
     \<and> current_page (snd (insert_nb (run c ops) (At p) w text))
         = Some \<lparr>pid = Suc (next_ref (run c ops)), tab = next_ref (run c ops), content = w\<rparr>"
proof
  assume fits: "fits_ssize p"
  define s where "s = run c ops"
  define np where "np = \<lparr>pid = Suc (next_ref s), tab = next_ref s, content = w\<rparr>"
  define k where "k = insert_where (length (pages s)) p"
  have refs: "refs_ok s" and cur: "current_ok s"
    by (simp_all add: s_def refs_ok_run current_ok_run)
  have k: "k \<le> length (pages s)" by (simp add: k_def insert_where_le)
  have pos: "(case At p of End \<Rightarrow> Inr (pages s @ [np]) | At n \<Rightarrow> list_insert n np (pages s))
          = Inr (take k (pages s) @ np # drop k (pages s))"
    using fits by (simp add: list_insert_fits k_def)
  note found = insert_nb_found [OF refs cur k pos np_def]
  have "fst (insert_nb s (At p) w text) = Inr ()
     \<and> pages (snd (insert_nb s (At p) w text)) = take k (pages s) @ np # drop k (pages s)
     \<and> k = (if p < - int (length (pages s)) then 0
            else if p < 0 then nat (int (length (pages s)) + p)
            else if p \<le> int (length (pages s)) then nat p
            else length (pages s))
     \<and> np \<in> set (pages (snd (insert_nb s (At p) w text)))
     \<and> current_page (snd (insert_nb s (At p) w text)) = Some np"
    using found(1,2,3) by (simp add: k_def insert_where_cases)
  then show "fst (insert_nb (run c ops) (At p) w text) = Inr ()
     \<and> pages (snd (insert_nb (run c ops) (At p) w text))
         = take (insert_where (length (pages (run c ops))) p) (pages (run c ops))
           @ \<lparr>pid = Suc (next_ref (run c ops)), tab = next_ref (run c ops), content = w\<rparr>
           # drop (insert_where (length (pages (run c ops))) p) (pages (run c ops))
     \<and> insert_where (length (pages (run c ops))) p
         = (if p < - int (length (pages (run c ops))) then 0
            else if p < 0 then nat (int (length (pages (run c ops))) + p)
            else if p \<le> int (length (pages (run c ops))) then nat p
            else length (pages (run c ops)))
     \<and> \<lparr>pid = Suc (next_ref (run c ops)), tab = next_ref (run c ops), content = w\<rparr>
         \<in> set (pages (snd (insert_nb (run c ops) (At p) w text)))
     \<and> current_page (snd (insert_nb (run c ops) (At p) w text))
         = Some \<lparr>pid = Suc (next_ref (run c ops)), tab = next_ref (run c ops), content = w\<rparr>"
    unfolding s_def np_def k_def by blast
qed

theorem C10_insert_position_witness:
  "fits_ssize (- 7)
   \<and> fst (insert_nb (run True [Add (Widget 0 ''a'') ''a'', Add (Widget 1 ''b'') ''b''])
            (At (- 7)) (Widget 2 ''c'') ''c'') = Inr ()
   \<and> get_current_child
        (snd (insert_nb (run True [Add (Widget 0 ''a'') ''a'', Add (Widget 1 ''b'') ''b''])
               (At (- 7)) (Widget 2 ''c'') ''c'')) = Some (Widget 2 ''c'')"
proof -
  have fits: "fits_ssize (- 7)" by code_simp
  with C10_insert_position
         [of "- 7" True "[Add (Widget 0 ''a'') ''a'', Add (Widget 1 ''b'') ''b'']" "Widget 2 ''c''"
             "''c''"]
  show ?thesis by (simp add: get_current_child_def)
qed

end
